theory Spec2Isabelle
  imports Main
begin

section \<open>JavaScript values reaching the handlers\<close>

text \<open>
  Socket.IO hands every handler whatever the peer sent, decoded from JSON. A payload
  is therefore any JSON value, or \<open>undefined\<close> when the peer sent none. Numbers only
  matter here through their truthiness and through not being strings, so they are
  integers. An object lists each key once.
\<close>

datatype jsval =
    JUndefined
  | JNull
  | JBool bool
  | JNum int
  | JStr string
  | JArr "jsval list"
  | JObj "(string \<times> jsval) list"

datatype error = TypeError

text \<open>The truthiness test behind \<open>!x\<close> and \<open>if (x)\<close>.\<close>

fun truthy :: "jsval \<Rightarrow> bool" where
  "truthy JUndefined = False"
| "truthy JNull = False"
| "truthy (JBool b) = b"
| "truthy (JNum n) = (n \<noteq> 0)"
| "truthy (JStr s) = (s \<noteq> [])"
| "truthy (JArr vs) = True"
| "truthy (JObj kvs) = True"

text \<open>
  Reading a data property \<open>v.k\<close>, for the two keys the handlers read (\<open>message\<close> and
  \<open>isTyping\<close>): \<open>undefined\<close> and \<open>null\<close> throw, an object yields the stored value
  or \<open>undefined\<close>, and no primitive or array has either key.
\<close>

fun get_prop :: "jsval \<Rightarrow> string \<Rightarrow> error + jsval" where
  "get_prop JUndefined k = Inl TypeError"
| "get_prop JNull k = Inl TypeError"
| "get_prop (JObj kvs) k = Inr (case map_of kvs k of None \<Rightarrow> JUndefined | Some v \<Rightarrow> v)"
| "get_prop (JBool b) k = Inr JUndefined"
| "get_prop (JNum n) k = Inr JUndefined"
| "get_prop (JStr s) k = Inr JUndefined"
| "get_prop (JArr vs) k = Inr JUndefined"

text \<open>
  Strings are lists of code units, restricted to the Latin-1 range of \<open>char\<close>. The
  white space and line terminators that \<open>String.prototype.trim\<close> strips are, in this
  range, TAB, LF, VT, FF, CR, SPACE and NBSP.
\<close>

definition is_white_space :: "char \<Rightarrow> bool" where
  "is_white_space c =
     (c = CHR 0x09 \<or> c = CHR 0x0A \<or> c = CHR 0x0B \<or> c = CHR 0x0C \<or> c = CHR 0x0D
      \<or> c = CHR 0x20 \<or> c = CHR 0xA0)"

definition trim :: "string \<Rightarrow> string" where
  "trim s = rev (dropWhile is_white_space (rev (dropWhile is_white_space s)))"

text \<open>
  The method call \<open>v.trim()\<close>: only a string has the method; on \<open>undefined\<close> the
  property read throws, on any other JSON value \<open>v.trim\<close> is not a function.
\<close>

fun call_trim :: "jsval \<Rightarrow> error + string" where
  "call_trim (JStr s) = Inr (trim s)"
| "call_trim JUndefined = Inl TypeError"
| "call_trim JNull = Inl TypeError"
| "call_trim (JBool b) = Inl TypeError"
| "call_trim (JNum n) = Inl TypeError"
| "call_trim (JArr vs) = Inl TypeError"
| "call_trim (JObj kvs) = Inl TypeError"

text \<open>\<open>xs.slice(-n)\<close>: the last \<open>n\<close> elements, or all of them when there are fewer.\<close>

definition slice_neg :: "nat \<Rightarrow> 'a list \<Rightarrow> 'a list" where
  "slice_neg n xs = drop (length xs - n) xs"

text \<open>
  A JavaScript \<open>Map\<close> keeps its keys in insertion order: \<open>set\<close> on a present key
  replaces the value where it stands, on an absent key it appends; \<open>delete\<close> drops
  the key; \<open>keys()\<close> lists the keys in order.
\<close>

fun map_set :: "'k \<Rightarrow> 'v \<Rightarrow> ('k \<times> 'v) list \<Rightarrow> ('k \<times> 'v) list" where
  "map_set k v [] = [(k, v)]"
| "map_set k v (p # ps) = (if fst p = k then (k, v) # ps else p # map_set k v ps)"

fun map_delete :: "'k \<Rightarrow> ('k \<times> 'v) list \<Rightarrow> ('k \<times> 'v) list" where
  "map_delete k [] = []"
| "map_delete k (p # ps) = (if fst p = k then map_delete k ps else p # map_delete k ps)"

definition map_keys :: "('k \<times> 'v) list \<Rightarrow> 'k list" where
  "map_keys m = map fst m"

section \<open>Server state\<close>

type_synonym socket_id = string

text \<open>Time stamps (\<open>new Date()\<close>) are milliseconds, read from the clock by each handler.\<close>

record message_data =
  username :: string
  message :: string
  timestamp :: nat

record user_data =
  id_of :: socket_id
  joinedAt :: nat

text \<open>
  The module-level variables \<open>isDbConnected\<close>, \<open>memoryMessages\<close> and \<open>activeUsers\<close>,
  the sockets of the namespace in connection order with the \<open>username\<close> property each
  handler closure sets on its socket (\<open>None\<close> while it is \<open>undefined\<close>), the
  documents of the \<open>Message\<close> collection in MongoDB, and the \<open>send-message\<close>
  handlers suspended at \<open>await dbMessage.save()\<close>, each with the \<open>messageData\<close> it
  holds, in the order they were suspended.
\<close>

record server =
  isDbConnected :: bool
  memoryMessages :: "message_data list"
  activeUsers :: "(string \<times> user_data) list"
  connected :: "socket_id list"
  socket_username :: "socket_id \<Rightarrow> string option"
  collection :: "message_data list"
  pending :: "message_data list"

datatype server_event =
    ErrorEv string
  | UserJoined string nat
  | UserLeft string nat
  | UsersUpdate "string list"
  | NewMessage message_data
  | UserTyping string jsval

text \<open>
  \<open>socket.emit\<close> reaches the socket itself, \<open>socket.broadcast.emit\<close> every socket of
  the namespace but that one, \<open>io.emit\<close> every socket of the namespace.
\<close>

datatype target = ToSocket socket_id | Broadcast socket_id | ToAll

record messages_response =
  messages :: "message_data list"
  source :: string

datatype effect =
    Emit target server_event
  | MessagesResponse messages_response
  | UsersResponse "(string \<times> nat) list"

fun recipients :: "server \<Rightarrow> target \<Rightarrow> socket_id list" where
  "recipients s (ToSocket k) = [k]"
| "recipients s (Broadcast k) = filter (\<lambda>j. j \<noteq> k) (connected s)"
| "recipients s ToAll = connected s"

definition initial :: "message_data list \<Rightarrow> server" where
  "initial docs =
     \<lparr> isDbConnected = False, memoryMessages = [], activeUsers = [], connected = [],
       socket_username = (\<lambda>k. None), collection = docs, pending = [] \<rparr>"

text \<open>\<open>connectDB\<close>: the one place that assigns \<open>isDbConnected\<close>, from the outcome of
  \<open>mongoose.connect\<close>.\<close>

definition connectDB :: "bool \<Rightarrow> server \<Rightarrow> server" where
  "connectDB connect_ok s = s\<lparr>isDbConnected := connect_ok\<rparr>"

section \<open>HTTP routes\<close>

text \<open>
  \<open>Message.find().sort({timestamp: -1}).limit(50)\<close>: newest first, at most 50. The
  order MongoDB gives to equal time stamps is not specified; here it is the reverse
  of a stable ascending sort.
\<close>

definition find_recent :: "message_data list \<Rightarrow> message_data list" where
  "find_recent docs = take 50 (rev (sort_key timestamp docs))"

text \<open>
  \<open>GET /api/messages\<close>; \<open>find_ok\<close> tells whether the query resolved or threw. The
  route reads the state once: the collection when the query runs, or the buffer when
  it answers without the database.
\<close>

definition get_messages :: "server \<Rightarrow> bool \<Rightarrow> messages_response" where
  "get_messages s find_ok =
     (if isDbConnected s then
        (if find_ok then \<lparr> messages = rev (find_recent (collection s)), source = ''database'' \<rparr>
         else \<lparr> messages = slice_neg 50 (memoryMessages s), source = ''memory-fallback'' \<rparr>)
      else \<lparr> messages = slice_neg 50 (memoryMessages s), source = ''memory'' \<rparr>)"

text \<open>\<open>GET /api/users\<close>.\<close>

definition get_users :: "server \<Rightarrow> (string \<times> nat) list" where
  "get_users s = map (\<lambda>(name, d). (name, joinedAt d)) (activeUsers s)"

section \<open>Socket handlers\<close>

text \<open>
  Each handler returns the new state and what it emitted, in order, or the exception
  it threw. All three throwing expressions come before the handler's first
  assignment or emit, so a throw leaves the state as it was.
\<close>

definition on_join :: "server \<Rightarrow> socket_id \<Rightarrow> jsval \<Rightarrow> nat \<Rightarrow> nat \<Rightarrow> error + server \<times> effect list" where
  "on_join s k uname t_joined t_notify =
     (if \<not> truthy uname then Inr (s, [Emit (ToSocket k) (ErrorEv ''Username is required'')])
      else
        (case call_trim uname of
           Inl e \<Rightarrow> Inl e
         | Inr name \<Rightarrow>
             (if name = [] then Inr (s, [Emit (ToSocket k) (ErrorEv ''Username is required'')])
              else
                (let s' = s\<lparr> socket_username := (socket_username s)(k := Some name),
                             activeUsers := map_set name \<lparr> id_of = k, joinedAt = t_joined \<rparr>
                                              (activeUsers s) \<rparr>
                 in Inr (s', [Emit (Broadcast k) (UserJoined name t_notify),
                              Emit ToAll (UsersUpdate (map_keys (activeUsers s')))])))))"

text \<open>The buffer write of \<open>send-message\<close>: push, then keep the last 100.\<close>

definition push_message :: "message_data \<Rightarrow> message_data list \<Rightarrow> message_data list" where
  "push_message m buf =
     (let buf' = buf @ [m] in if length buf' > 100 then slice_neg 100 buf' else buf')"

text \<open>
  \<open>send-message\<close>, from its start to its first suspension or its end. With the
  database not connected the handler never awaits and emits \<open>new-message\<close> before
  it returns. With the database connected it stops at \<open>await dbMessage.save()\<close>,
  after the buffer write and before the emit: the handler joins the suspended ones.
\<close>

definition on_send_message :: "server \<Rightarrow> socket_id \<Rightarrow> jsval \<Rightarrow> nat \<Rightarrow> error + server \<times> effect list" where
  "on_send_message s k data t =
     (case socket_username s k of
        None \<Rightarrow> Inr (s, [Emit (ToSocket k) (ErrorEv ''You must join first'')])
      | Some u \<Rightarrow>
          (if u = [] then Inr (s, [Emit (ToSocket k) (ErrorEv ''You must join first'')])
           else
             (case get_prop data ''message'' of
                Inl e \<Rightarrow> Inl e
              | Inr m \<Rightarrow>
                  (case call_trim m of
                     Inl e \<Rightarrow> Inl e
                   | Inr body \<Rightarrow>
                       (if body = [] then Inr (s, [])
                        else
                          (let messageData = \<lparr> username = u, message = body, timestamp = t \<rparr>;
                               s1 = s\<lparr> memoryMessages := push_message messageData (memoryMessages s) \<rparr>
                           in if isDbConnected s1
                              then Inr (s1\<lparr> pending := pending s1 @ [messageData] \<rparr>, [])
                              else Inr (s1, [Emit ToAll (NewMessage messageData)])))))))"

text \<open>
  The rest of \<open>send-message\<close>, run when the save of the \<open>i\<close>-th suspended handler
  settles: \<open>save_ok\<close> tells whether \<open>dbMessage.save()\<close> resolved, and the document is
  in the collection, or threw into the handler's \<open>catch\<close>. Either way the handler goes
  on to emit \<open>new-message\<close>. Nothing settles a save that is not pending.
\<close>

definition resume_send_message :: "server \<Rightarrow> nat \<Rightarrow> bool \<Rightarrow> error + server \<times> effect list" where
  "resume_send_message s i save_ok =
     (if i < length (pending s)
      then
        (let messageData = pending s ! i;
             s1 = s\<lparr> pending := take i (pending s) @ drop (Suc i) (pending s) \<rparr>;
             s2 = (if save_ok then s1\<lparr> collection := collection s1 @ [messageData] \<rparr> else s1)
         in Inr (s2, [Emit ToAll (NewMessage messageData)]))
      else Inr (s, []))"

definition on_typing :: "server \<Rightarrow> socket_id \<Rightarrow> jsval \<Rightarrow> error + server \<times> effect list" where
  "on_typing s k data =
     (case socket_username s k of
        None \<Rightarrow> Inr (s, [])
      | Some u \<Rightarrow>
          (if u = [] then Inr (s, [])
           else
             (case get_prop data ''isTyping'' of
                Inl e \<Rightarrow> Inl e
              | Inr v \<Rightarrow> Inr (s, [Emit (Broadcast k) (UserTyping u v)]))))"

definition on_disconnect :: "server \<Rightarrow> socket_id \<Rightarrow> nat \<Rightarrow> error + server \<times> effect list" where
  "on_disconnect s k t =
     (case socket_username s k of
        None \<Rightarrow> Inr (s, [])
      | Some u \<Rightarrow>
          (if u = [] then Inr (s, [])
           else
             (let s' = s\<lparr> activeUsers := map_delete u (activeUsers s) \<rparr>
              in Inr (s', [Emit (Broadcast k) (UserLeft u t),
                           Emit ToAll (UsersUpdate (map_keys (activeUsers s')))]))))"

section \<open>The event loop\<close>

text \<open>
  What the process reacts to, each with the clock readings and storage outcomes its
  handler meets. The transport delivers events of live sockets only, and a socket has
  left the namespace when its \<open>disconnect\<close> handler runs. The settling of a pending
  save is an action of its own: other actions can come between a \<open>send-message\<close> and
  the settling of its save, and saves need not settle in the order they were started.
\<close>

datatype action =
    Connect socket_id
  | Join socket_id jsval nat nat
  | SendMessage socket_id jsval nat
  | SaveSettled nat bool
  | Typing socket_id jsval
  | Disconnect socket_id nat
  | GetMessages bool
  | GetUsers

fun step :: "server \<Rightarrow> action \<Rightarrow> error + server \<times> effect list" where
  "step s (Connect k) =
     (if k \<in> set (connected s) then Inr (s, [])
      else Inr (s\<lparr> connected := connected s @ [k],
                   socket_username := (socket_username s)(k := None) \<rparr>, []))"
| "step s (Join k uname t_joined t_notify) =
     (if k \<in> set (connected s) then on_join s k uname t_joined t_notify else Inr (s, []))"
| "step s (SendMessage k data t) =
     (if k \<in> set (connected s) then on_send_message s k data t else Inr (s, []))"
| "step s (SaveSettled i save_ok) = resume_send_message s i save_ok"
| "step s (Typing k data) =
     (if k \<in> set (connected s) then on_typing s k data else Inr (s, []))"
| "step s (Disconnect k t) =
     (if k \<in> set (connected s)
      then on_disconnect (s\<lparr> connected := removeAll k (connected s) \<rparr>) k t
      else Inr (s, []))"
| "step s (GetMessages find_ok) = Inr (s, [MessagesResponse (get_messages s find_ok)])"
| "step s GetUsers = Inr (s, [UsersResponse (get_users s)])"

text \<open>
  A run handles the actions in order and stops at the first uncaught exception. It
  yields the last state, everything emitted up to there, and the exception if any.
\<close>

fun run :: "server \<Rightarrow> action list \<Rightarrow> server \<times> effect list \<times> error option" where
  "run s [] = (s, [], None)"
| "run s (a # as) =
     (case step s a of
        Inl e \<Rightarrow> (s, [], Some e)
      | Inr (s', outs) \<Rightarrow>
          (case run s' as of (s'', outs', crash) \<Rightarrow> (s'', outs @ outs', crash)))"

definition final_state :: "server \<times> effect list \<times> error option \<Rightarrow> server" where
  "final_state r = fst r"

definition outputs :: "server \<times> effect list \<times> error option \<Rightarrow> effect list" where
  "outputs r = fst (snd r)"

definition crashed :: "server \<times> effect list \<times> error option \<Rightarrow> error option" where
  "crashed r = snd (snd r)"

section \<open>The browser client\<close>

text \<open>
  \<open>ChatApp.joinChat\<close> reads the name field and either shows an error or emits
  \<open>join\<close> with the trimmed name.
\<close>

datatype client_effect = ShowError string | EmitJoin string

definition joinChat :: "string \<Rightarrow> client_effect" where
  "joinChat input =
     (let uname = trim input in
      if uname = [] then ShowError ''Please enter a username''
      else if length uname > 20 then ShowError ''Username must be 20 characters or less''
      else EmitJoin uname)"

section \<open>Runs of validated sends\<close>

text \<open>
  A sequence of \<open>send-message\<close> actions of one socket, each with a well-formed payload
  \<open>{message: body}\<close> and its clock reading; and the messages such a sequence stands
  for when the socket's name is \<open>u\<close>.
\<close>

definition send_actions :: "socket_id \<Rightarrow> (string \<times> nat) list \<Rightarrow> action list" where
  "send_actions k inputs =
     map (\<lambda>(body, t). SendMessage k (JObj [(''message'', JStr body)]) t) inputs"

definition sent_as :: "string \<Rightarrow> (string \<times> nat) list \<Rightarrow> message_data list" where
  "sent_as u inputs =
     map (\<lambda>(body, t). \<lparr> username = u, message = trim body, timestamp = t \<rparr>) inputs"


text \<open>Two sockets joining one after the other.\<close>

definition two_joins ::
  "socket_id \<Rightarrow> string \<Rightarrow> nat \<Rightarrow> nat \<Rightarrow> socket_id \<Rightarrow> string \<Rightarrow> nat \<Rightarrow> nat \<Rightarrow> action list" where
  "two_joins a n t1 t2 b n' t3 t4 = [Join a (JStr n) t1 t2, Join b (JStr n') t3 t4]"

section \<open>Concrete states and inputs\<close>

text \<open>A fresh process after two sockets connected, none identified yet.\<close>

definition lobby :: server where
  "lobby = final_state (run (initial []) [Connect ''a'', Connect ''b''])"

text \<open>The same, after socket \<open>a\<close> joined as \<open>alice\<close> at time 1.\<close>

definition alice_online :: server where
  "alice_online = final_state (run lobby [Join ''a'' (JStr ''alice'') 1 1])"

text \<open>The same again, with MongoDB connected.\<close>

definition alice_db :: server where
  "alice_db = connectDB True alice_online"

text \<open>A name of 21 characters.\<close>

definition long_name :: string where
  "long_name = ''abcdefghijklmnopqrstu''"

text \<open>150 sends, numbered 1 to 150 by their clock readings.\<close>

definition numbered_inputs :: "(string \<times> nat) list" where
  "numbered_inputs = map (\<lambda>n. (''hi'', n)) [1..<151]"




text \<open>Both sockets identified: \<open>b\<close> joined as \<open>bob\<close> after \<open>alice\<close>.\<close>

definition both_online :: server where
  "both_online = final_state (run alice_online [Join ''b'' (JStr ''bob'') 3 4])"


text \<open>
  Two sends with the database connected, the save of the second settling before the
  save of the first.
\<close>

definition overlapping_sends :: "action list" where
  "overlapping_sends =
     [SendMessage ''a'' (JObj [(''message'', JStr ''hi'')]) 7,
      SendMessage ''a'' (JObj [(''message'', JStr ''yo'')]) 8,
      SaveSettled 1 True, SaveSettled 0 False]"

section \<open>Basic facts\<close>

lemma trim_Nil [simp]: "trim [] = []"
  by (simp add: trim_def)

lemma trim_hi: "trim ''hi'' = ''hi''"
  by (simp add: trim_def is_white_space_def)

lemma trim_long_name: "trim long_name = long_name"
  by (simp add: long_name_def trim_def is_white_space_def)

lemma map_of_map_set: "map_of (map_set k v m) k = Some v"
  by (induction m) auto

lemma map_delete_keys: "k \<notin> set (map_keys (map_delete k m))"
  by (induction m) (auto simp: map_keys_def)


lemma slice_neg_id: "length xs \<le> n \<Longrightarrow> slice_neg n xs = xs"
  by (simp add: slice_neg_def)

lemma slice_neg_append: "slice_neg n (slice_neg n xs @ ys) = slice_neg n (xs @ ys)"
proof (cases "length xs \<le> n")
  case True
  then show ?thesis by (simp add: slice_neg_def)
next
  case False
  then have "length xs - n + n = length xs" by simp
  then show ?thesis using False by (simp add: slice_neg_def add.commute)
qed



lemma push_message_slice: "push_message m buf = slice_neg 100 (buf @ [m])"
  by (simp add: push_message_def slice_neg_def Let_def)

lemma last_push_message: "last (push_message m buf) = m"
  by (simp add: push_message_slice slice_neg_def)

lemma length_push_message: "length (push_message m buf) \<le> 100"
  by (simp add: push_message_slice slice_neg_def)

lemma fold_push_message:
  "length buf \<le> 100 \<Longrightarrow> fold push_message ms buf = slice_neg 100 (buf @ ms)"
proof (induction ms arbitrary: buf)
  case Nil
  then show ?case by (simp add: slice_neg_id)
next
  case (Cons m ms)
  have "fold push_message (m # ms) buf = fold push_message ms (push_message m buf)" by simp
  also have "\<dots> = slice_neg 100 (push_message m buf @ ms)"
    by (rule Cons.IH) (rule length_push_message)
  also have "\<dots> = slice_neg 100 ((buf @ [m]) @ ms)"
    by (simp only: push_message_slice slice_neg_append)
  finally show ?case by simp
qed

lemma run_parts [simp]:
  "final_state (s, outs, c) = s" "outputs (s, outs, c) = outs" "crashed (s, outs, c) = c"
  by (simp_all add: final_state_def outputs_def crashed_def)

lemma run_Cons_Inr:
  assumes "step s a = Inr (s', outs)"
  shows "final_state (run s (a # as)) = final_state (run s' as)"
    and "outputs (run s (a # as)) = outs @ outputs (run s' as)"
    and "crashed (run s (a # as)) = crashed (run s' as)"
  using assms by (simp_all add: final_state_def outputs_def crashed_def split: prod.splits)

lemma run_Cons_Inl:
  assumes "step s a = Inl e"
  shows "final_state (run s (a # as)) = s"
    and "outputs (run s (a # as)) = []"
    and "crashed (run s (a # as)) = Some e"
  using assms by (simp_all add: final_state_def outputs_def crashed_def)

lemma lobby_connected: "connected lobby = [''a'', ''b'']"
  by (simp add: lobby_def initial_def)

lemma lobby_username: "socket_username lobby k = None"
  by (simp add: lobby_def initial_def)

lemma lobby_activeUsers: "activeUsers lobby = []"
  by (simp add: lobby_def initial_def)

lemma lobby_memoryMessages: "memoryMessages lobby = []"
  by (simp add: lobby_def initial_def)

lemma lobby_isDbConnected: "\<not> isDbConnected lobby"
  by (simp add: lobby_def initial_def)

lemma alice_online_eq:
  "alice_online =
     lobby\<lparr> socket_username := (socket_username lobby)(''a'' := Some ''alice''),
            activeUsers := [(''alice'', \<lparr> id_of = ''a'', joinedAt = 1 \<rparr>)] \<rparr>"
proof -
  have "trim ''alice'' = ''alice''" by (simp add: trim_def is_white_space_def)
  then show ?thesis
    by (simp add: alice_online_def on_join_def Let_def lobby_connected lobby_activeUsers)
qed

lemma alice_online_connected: "connected alice_online = [''a'', ''b'']"
  by (simp add: alice_online_eq lobby_connected)

lemma alice_online_username_a: "socket_username alice_online ''a'' = Some ''alice''"
  by (simp add: alice_online_eq)

lemma alice_online_username_b: "socket_username alice_online ''b'' = None"
  by (simp add: alice_online_eq lobby_username)

lemma alice_online_activeUsers:
  "activeUsers alice_online = [(''alice'', \<lparr> id_of = ''a'', joinedAt = 1 \<rparr>)]"
  by (simp add: alice_online_eq)

lemma alice_online_memoryMessages: "memoryMessages alice_online = []"
  by (simp add: alice_online_eq lobby_memoryMessages)

lemma alice_online_isDbConnected: "\<not> isDbConnected alice_online"
  by (simp add: alice_online_eq lobby_isDbConnected)

lemma both_online_eq:
  "both_online =
     alice_online\<lparr> socket_username := (socket_username alice_online)(''b'' := Some ''bob''),
                   activeUsers := [(''alice'', \<lparr> id_of = ''a'', joinedAt = 1 \<rparr>),
                                   (''bob'', \<lparr> id_of = ''b'', joinedAt = 3 \<rparr>)] \<rparr>"
proof -
  have "trim ''bob'' = ''bob''" by (simp add: trim_def is_white_space_def)
  then show ?thesis
    by (simp add: both_online_def on_join_def Let_def alice_online_connected
        alice_online_activeUsers)
qed

lemma map_delete_filter: "map_delete k m = filter (\<lambda>p. fst p \<noteq> k) m"
  by (induction m) auto

lemma map_keys_map_delete:
  "map_keys (map_delete k m) = filter (\<lambda>n. n \<noteq> k) (map_keys m)"
  by (induction m) (auto simp: map_keys_def)

section \<open>Joining\<close>

text \<open>
  The server's \<open>join\<close> handler accepts every string that is not empty after trimming:
  it names the socket, writes the registry entry and emits \<open>user-joined\<close> to the
  others and the roster to all. The length of the name plays no part.
\<close>

lemma join_string_accepted:
  assumes "k \<in> set (connected s)" and "trim n \<noteq> []"
  shows "step s (Join k (JStr n) t_joined t_notify)
           = Inr (s\<lparr> socket_username := (socket_username s)(k := Some (trim n)),
                     activeUsers := map_set (trim n) \<lparr> id_of = k, joinedAt = t_joined \<rparr> (activeUsers s) \<rparr>,
                  [Emit (Broadcast k) (UserJoined (trim n) t_notify),
                   Emit ToAll (UsersUpdate (map_keys
                     (map_set (trim n) \<lparr> id_of = k, joinedAt = t_joined \<rparr> (activeUsers s))))])"
proof -
  have "n \<noteq> []" using assms(2) by auto
  then show ?thesis using assms by (simp add: on_join_def Let_def)
qed

text \<open>
  C1, as stated, fails on the server: a \<open>join\<close> with a name of 21 characters is
  accepted. The socket gets the whole name, the registry gets an entry under it, and
  the two events emitted are \<open>user-joined\<close> and \<open>users-update\<close>; no error is
  emitted.
\<close>

theorem long_name_join_accepted_counterexample:
  "length (trim long_name) = 21
   \<and> step lobby (Join ''a'' (JStr long_name) 1 2)
       = Inr (lobby\<lparr> socket_username := (socket_username lobby)(''a'' := Some long_name),
                     activeUsers := [(long_name, \<lparr> id_of = ''a'', joinedAt = 1 \<rparr>)] \<rparr>,
              [Emit (Broadcast ''a'') (UserJoined long_name 2),
               Emit ToAll (UsersUpdate [long_name])])"
proof -
  have c: "''a'' \<in> set (connected lobby)" by (simp add: lobby_connected)
  have l: "length long_name = 21" by (simp add: long_name_def)
  have t: "trim long_name \<noteq> []" unfolding trim_long_name by (simp add: long_name_def)
  from join_string_accepted [OF c t, of 1 2] l show ?thesis
    by (simp add: trim_long_name map_keys_def lobby_activeUsers)
qed

text \<open>
  C1, amended. A name longer than 20 characters after trimming is turned down by the
  browser client: \<open>joinChat\<close> shows \<open>Username must be 20 characters or less\<close> and
  emits no \<open>join\<close>. The server's handler has no length cap: a \<open>join\<close> of a live socket
  with any string that is not empty after trimming is accepted, and the trimmed name
  is registered whole.
\<close>

theorem name_cap_in_client_only:
  "(20 < length (trim input) \<longrightarrow>
      joinChat input = ShowError ''Username must be 20 characters or less'')
   \<and> (k \<in> set (connected s) \<and> trim n \<noteq> [] \<longrightarrow>
        step s (Join k (JStr n) t_joined t_notify)
          = Inr (s\<lparr> socket_username := (socket_username s)(k := Some (trim n)),
                    activeUsers := map_set (trim n) \<lparr> id_of = k, joinedAt = t_joined \<rparr> (activeUsers s) \<rparr>,
                 [Emit (Broadcast k) (UserJoined (trim n) t_notify),
                  Emit ToAll (UsersUpdate (map_keys
                    (map_set (trim n) \<lparr> id_of = k, joinedAt = t_joined \<rparr> (activeUsers s))))]))"
proof (intro conjI impI)
  assume "20 < length (trim input)"
  then show "joinChat input = ShowError ''Username must be 20 characters or less''"
    by (auto simp: joinChat_def Let_def)
next
  assume "k \<in> set (connected s) \<and> trim n \<noteq> []"
  then show "step s (Join k (JStr n) t_joined t_notify)
          = Inr (s\<lparr> socket_username := (socket_username s)(k := Some (trim n)),
                    activeUsers := map_set (trim n) \<lparr> id_of = k, joinedAt = t_joined \<rparr> (activeUsers s) \<rparr>,
                 [Emit (Broadcast k) (UserJoined (trim n) t_notify),
                  Emit ToAll (UsersUpdate (map_keys
                    (map_set (trim n) \<lparr> id_of = k, joinedAt = t_joined \<rparr> (activeUsers s))))])"
    using join_string_accepted [of k s n t_joined t_notify] by blast
qed

theorem name_cap_in_client_only_witness:
  "20 < length (trim (''  '' @ long_name))
   \<and> joinChat (''  '' @ long_name) = ShowError ''Username must be 20 characters or less''
   \<and> ''b'' \<in> set (connected alice_online) \<and> trim long_name \<noteq> []
   \<and> step alice_online (Join ''b'' (JStr long_name) 3 4)
       = Inr (alice_online\<lparr> socket_username := (socket_username alice_online)(''b'' := Some long_name),
                activeUsers := [(''alice'', \<lparr> id_of = ''a'', joinedAt = 1 \<rparr>),
                                (long_name, \<lparr> id_of = ''b'', joinedAt = 3 \<rparr>)] \<rparr>,
              [Emit (Broadcast ''b'') (UserJoined long_name 4),
               Emit ToAll (UsersUpdate [''alice'', long_name])])"
proof -
  have t2: "trim (''  '' @ long_name) = long_name"
    by (simp add: long_name_def trim_def is_white_space_def)
  have l: "20 < length (trim (''  '' @ long_name))" unfolding t2 by (simp add: long_name_def)
  have c: "''b'' \<in> set (connected alice_online)" by (simp add: alice_online_connected)
  have t: "trim long_name \<noteq> []" unfolding trim_long_name by (simp add: long_name_def)
  have ne: "''alice'' \<noteq> long_name" by (simp add: long_name_def)
  from name_cap_in_client_only [of "''  '' @ long_name" "''b''" alice_online long_name 3 4] l c t ne
  show ?thesis by (simp add: trim_long_name map_keys_def alice_online_activeUsers)
qed

section \<open>Sending\<close>

text \<open>
  What a validated send does up to its suspension or end: the buffer write, and then
  either the emit or the wait for the save.
\<close>

lemma step_valid_send:
  assumes "k \<in> set (connected s)" and "socket_username s k = Some u" and "u \<noteq> []"
    and "get_prop d ''message'' = Inr (JStr body)" and "trim body \<noteq> []"
  shows "step s (SendMessage k d t)
           = Inr (s\<lparr> memoryMessages :=
                       push_message \<lparr> username = u, message = trim body, timestamp = t \<rparr> (memoryMessages s),
                     pending :=
                       (if isDbConnected s
                        then pending s @ [\<lparr> username = u, message = trim body, timestamp = t \<rparr>]
                        else pending s) \<rparr>,
                  if isDbConnected s then []
                  else [Emit ToAll (NewMessage \<lparr> username = u, message = trim body, timestamp = t \<rparr>)])"
  using assms by (simp add: on_send_message_def Let_def)

text \<open>What the settling of a pending save does, whichever its outcome.\<close>

lemma step_save_settled:
  assumes "i < length (pending s)"
  shows "step s (SaveSettled i save_ok)
           = Inr (s\<lparr> pending := take i (pending s) @ drop (Suc i) (pending s),
                     collection := (if save_ok then collection s @ [pending s ! i] else collection s) \<rparr>,
                  [Emit ToAll (NewMessage (pending s ! i))])"
  using assms by (simp add: resume_send_message_def Let_def)

text \<open>
  C7. A \<open>send-message\<close> from a live socket that never joined, whatever its payload,
  emits the error \<open>You must join first\<close> to that socket alone and changes nothing:
  the socket stays connected and without a name, and neither the buffer nor the
  collection is written.
\<close>

theorem send_before_join_rejected:
  assumes "k \<in> set (connected s)" and "socket_username s k = None"
  shows "step s (SendMessage k d t)
           = Inr (s, [Emit (ToSocket k) (ErrorEv ''You must join first'')])
         \<and> recipients s (ToSocket k) = [k]"
  using assms by (simp add: on_send_message_def)

theorem send_before_join_rejected_witness:
  "''a'' \<in> set (connected lobby) \<and> socket_username lobby ''a'' = None
   \<and> step lobby (SendMessage ''a'' (JObj [(''message'', JStr ''hi'')]) 7)
       = Inr (lobby, [Emit (ToSocket ''a'') (ErrorEv ''You must join first'')])
   \<and> recipients lobby (ToSocket ''a'') = [''a'']"
proof -
  have c: "''a'' \<in> set (connected lobby)" by (simp add: lobby_connected)
  have u: "socket_username lobby ''a'' = None" by (rule lobby_username)
  from send_before_join_rejected [OF c u] c u show ?thesis by simp
qed

text \<open>
  C6. A \<open>send-message\<close> from a socket that has joined, whose \<open>message\<close> is a string
  that is empty after trimming, emits nothing at all (no \<open>new-message\<close>, no error)
  and leaves the state, buffer and collection included, as it was.
\<close>

theorem blank_message_dropped:
  assumes "k \<in> set (connected s)" and "socket_username s k = Some u" and "u \<noteq> []"
    and "get_prop d ''message'' = Inr (JStr body)" and "trim body = []"
  shows "step s (SendMessage k d t) = Inr (s, [])"
  using assms by (simp add: on_send_message_def)

theorem blank_message_dropped_witness:
  "''a'' \<in> set (connected alice_online) \<and> socket_username alice_online ''a'' = Some ''alice''
   \<and> ''alice'' \<noteq> []
   \<and> get_prop (JObj [(''message'', JStr ''   '')]) ''message'' = Inr (JStr ''   '')
   \<and> trim ''   '' = []
   \<and> step alice_online (SendMessage ''a'' (JObj [(''message'', JStr ''   '')]) 7)
       = Inr (alice_online, [])"
proof -
  have c: "''a'' \<in> set (connected alice_online)" by (simp add: alice_online_connected)
  have u: "socket_username alice_online ''a'' = Some ''alice''" by (rule alice_online_username_a)
  have n: "''alice'' \<noteq> []" by simp
  have g: "get_prop (JObj [(''message'', JStr ''   '')]) ''message'' = Inr (JStr ''   '')"
    by simp
  have b: "trim ''   '' = []" by (simp add: trim_def is_white_space_def)
  from blank_message_dropped [OF c u n g b] c u n g b show ?thesis by simp
qed

text \<open>
  C8, as stated, fails: the durable write does hold the broadcast back. With the
  database connected, a validated send from \<open>alice\<close> writes the buffer and then
  waits for its save; until the save settles nothing is emitted. When two sends
  overlap and the save of the second settles first, \<open>new-message\<close> goes out for the
  second before the first, the reverse of the buffer's order.
\<close>

theorem pending_save_holds_broadcast_counterexample:
  "isDbConnected alice_db
   \<and> step alice_db (SendMessage ''a'' (JObj [(''message'', JStr ''hi'')]) 7)
       = Inr (alice_db\<lparr> memoryMessages := [\<lparr> username = ''alice'', message = ''hi'', timestamp = 7 \<rparr>],
                        pending := [\<lparr> username = ''alice'', message = ''hi'', timestamp = 7 \<rparr>] \<rparr>,
              [])
   \<and> memoryMessages (final_state (run alice_db overlapping_sends))
       = [\<lparr> username = ''alice'', message = ''hi'', timestamp = 7 \<rparr>,
          \<lparr> username = ''alice'', message = ''yo'', timestamp = 8 \<rparr>]
   \<and> outputs (run alice_db overlapping_sends)
       = [Emit ToAll (NewMessage \<lparr> username = ''alice'', message = ''yo'', timestamp = 8 \<rparr>),
          Emit ToAll (NewMessage \<lparr> username = ''alice'', message = ''hi'', timestamp = 7 \<rparr>)]"
proof -
  have t: "trim ''yo'' = ''yo''" by (simp add: trim_def is_white_space_def)
  have c: "connected alice_db = [''a'', ''b'']"
    by (simp add: alice_db_def connectDB_def alice_online_connected)
  have u: "socket_username alice_db ''a'' = Some ''alice''"
    by (simp add: alice_db_def connectDB_def alice_online_username_a)
  have m: "memoryMessages alice_db = []"
    by (simp add: alice_db_def connectDB_def alice_online_memoryMessages)
  have p: "pending alice_db = []"
    by (simp add: alice_db_def connectDB_def alice_online_eq lobby_def initial_def)
  have db: "isDbConnected alice_db" by (simp add: alice_db_def connectDB_def)
  show ?thesis
    by (simp add: overlapping_sends_def on_send_message_def resume_send_message_def Let_def
        push_message_def c u m p db trim_hi t)
qed

text \<open>
  C8, amended. A \<open>send-message\<close> from a socket that has joined, whose \<open>message\<close> is
  a string that is not empty after trimming, pushes the message onto the buffer at
  once (it is the buffer's last entry afterwards). With the database not connected,
  exactly one \<open>new-message\<close> is emitted in the same step, to all sockets, the sender
  among them. With the database connected, nothing is emitted until the save settles;
  the handler waits. When a pending save settles, whether it resolved or threw, exactly
  one \<open>new-message\<close> with the waiting message is emitted to all sockets; a save that
  threw only leaves the collection as it was. So a send whose save settles right away
  ends with the message in the buffer and one \<open>new-message\<close> emitted, whatever the
  outcome of the save.
\<close>

theorem valid_send_buffered_and_broadcast:
  assumes "k \<in> set (connected s)" and "socket_username s k = Some u" and "u \<noteq> []"
    and "get_prop d ''message'' = Inr (JStr body)" and "trim body \<noteq> []"
  shows "(\<not> isDbConnected s \<longrightarrow>
            step s (SendMessage k d t)
              = Inr (s\<lparr> memoryMessages :=
                          push_message \<lparr> username = u, message = trim body, timestamp = t \<rparr>
                            (memoryMessages s) \<rparr>,
                     [Emit ToAll (NewMessage \<lparr> username = u, message = trim body, timestamp = t \<rparr>)]))
         \<and> (isDbConnected s \<longrightarrow>
            step s (SendMessage k d t)
              = Inr (s\<lparr> memoryMessages :=
                          push_message \<lparr> username = u, message = trim body, timestamp = t \<rparr>
                            (memoryMessages s),
                        pending := pending s @ [\<lparr> username = u, message = trim body, timestamp = t \<rparr>] \<rparr>,
                     [])
            \<and> run s [SendMessage k d t, SaveSettled (length (pending s)) save_ok]
              = (s\<lparr> memoryMessages :=
                       push_message \<lparr> username = u, message = trim body, timestamp = t \<rparr>
                         (memoryMessages s),
                     collection :=
                       (if save_ok
                        then collection s @ [\<lparr> username = u, message = trim body, timestamp = t \<rparr>]
                        else collection s) \<rparr>,
                 [Emit ToAll (NewMessage \<lparr> username = u, message = trim body, timestamp = t \<rparr>)],
                 None))
         \<and> (i < length (pending s') \<longrightarrow>
            step s' (SaveSettled i settled_ok)
              = Inr (s'\<lparr> pending := take i (pending s') @ drop (Suc i) (pending s'),
                         collection :=
                           (if settled_ok then collection s' @ [pending s' ! i] else collection s') \<rparr>,
                     [Emit ToAll (NewMessage (pending s' ! i))]))
         \<and> last (push_message \<lparr> username = u, message = trim body, timestamp = t \<rparr> (memoryMessages s))
             = \<lparr> username = u, message = trim body, timestamp = t \<rparr>
         \<and> k \<in> set (recipients s ToAll)"
proof -
  let ?m = "\<lparr> username = u, message = trim body, timestamp = t \<rparr>"
  note st = step_valid_send [OF assms, of t]
  have off: "step s (SendMessage k d t)
      = Inr (s\<lparr> memoryMessages := push_message ?m (memoryMessages s) \<rparr>,
             [Emit ToAll (NewMessage ?m)])"
    if "\<not> isDbConnected s"
    using st that by simp
  have on: "step s (SendMessage k d t)
      = Inr (s\<lparr> memoryMessages := push_message ?m (memoryMessages s),
                pending := pending s @ [?m] \<rparr>, [])"
    if "isDbConnected s"
    using st that by simp
  have both: "run s [SendMessage k d t, SaveSettled (length (pending s)) save_ok]
      = (s\<lparr> memoryMessages := push_message ?m (memoryMessages s),
             collection := (if save_ok then collection s @ [?m] else collection s) \<rparr>,
         [Emit ToAll (NewMessage ?m)], None)"
    if "isDbConnected s"
    using on [OF that] by (simp add: resume_send_message_def Let_def del: step.simps(3))
  have settle: "step s' (SaveSettled i settled_ok)
      = Inr (s'\<lparr> pending := take i (pending s') @ drop (Suc i) (pending s'),
                 collection := (if settled_ok then collection s' @ [pending s' ! i] else collection s') \<rparr>,
             [Emit ToAll (NewMessage (pending s' ! i))])"
    if "i < length (pending s')"
    using that by (rule step_save_settled)
  have l: "last (push_message ?m (memoryMessages s)) = ?m" by (rule last_push_message)
  have r: "k \<in> set (recipients s ToAll)" using assms(1) by simp
  show ?thesis using off on both settle l r by blast
qed

theorem valid_send_buffered_and_broadcast_witness:
  "''a'' \<in> set (connected alice_online) \<and> socket_username alice_online ''a'' = Some ''alice''
   \<and> ''a'' \<in> set (connected alice_db) \<and> socket_username alice_db ''a'' = Some ''alice''
   \<and> ''alice'' \<noteq> []
   \<and> get_prop (JObj [(''message'', JStr ''hi'')]) ''message'' = Inr (JStr ''hi'')
   \<and> trim ''hi'' \<noteq> []
   \<and> \<not> isDbConnected alice_online
   \<and> step alice_online (SendMessage ''a'' (JObj [(''message'', JStr ''hi'')]) 7)
       = Inr (alice_online\<lparr> memoryMessages := [\<lparr> username = ''alice'', message = ''hi'', timestamp = 7 \<rparr>] \<rparr>,
              [Emit ToAll (NewMessage \<lparr> username = ''alice'', message = ''hi'', timestamp = 7 \<rparr>)])
   \<and> isDbConnected alice_db
   \<and> run alice_db [SendMessage ''a'' (JObj [(''message'', JStr ''hi'')]) 7, SaveSettled 0 False]
       = (alice_db\<lparr> memoryMessages := [\<lparr> username = ''alice'', message = ''hi'', timestamp = 7 \<rparr>] \<rparr>,
          [Emit ToAll (NewMessage \<lparr> username = ''alice'', message = ''hi'', timestamp = 7 \<rparr>)],
          None)
   \<and> 0 < length (pending (alice_db\<lparr> pending := [\<lparr> username = ''alice'', message = ''hi'', timestamp = 7 \<rparr>] \<rparr>))
   \<and> step (alice_db\<lparr> pending := [\<lparr> username = ''alice'', message = ''hi'', timestamp = 7 \<rparr>] \<rparr>)
        (SaveSettled 0 True)
       = Inr (alice_db\<lparr> pending := [],
                        collection := [\<lparr> username = ''alice'', message = ''hi'', timestamp = 7 \<rparr>] \<rparr>,
              [Emit ToAll (NewMessage \<lparr> username = ''alice'', message = ''hi'', timestamp = 7 \<rparr>)])
   \<and> ''a'' \<in> set (recipients alice_db ToAll)"
proof -
  let ?m = "\<lparr> username = ''alice'', message = ''hi'', timestamp = 7 \<rparr>"
  let ?d = "JObj [(''message'', JStr ''hi'')]"
  have c: "''a'' \<in> set (connected alice_online)" by (simp add: alice_online_connected)
  have u: "socket_username alice_online ''a'' = Some ''alice''" by (rule alice_online_username_a)
  have c': "''a'' \<in> set (connected alice_db)"
    by (simp add: alice_db_def connectDB_def alice_online_connected)
  have u': "socket_username alice_db ''a'' = Some ''alice''"
    by (simp add: alice_db_def connectDB_def alice_online_username_a)
  have n: "''alice'' \<noteq> []" by simp
  have g: "get_prop ?d ''message'' = Inr (JStr ''hi'')" by simp
  have b: "trim ''hi'' \<noteq> []" by (simp add: trim_hi)
  have m: "memoryMessages alice_online = []" by (rule alice_online_memoryMessages)
  have m': "memoryMessages alice_db = []"
    by (simp add: alice_db_def connectDB_def alice_online_memoryMessages)
  have p': "pending alice_db = []"
    by (simp add: alice_db_def connectDB_def alice_online_eq lobby_def initial_def)
  have col: "collection alice_db = []"
    by (simp add: alice_db_def connectDB_def alice_online_eq lobby_def initial_def)
  have off: "\<not> isDbConnected alice_online" by (rule alice_online_isDbConnected)
  have db: "isDbConnected alice_db" by (simp add: alice_db_def connectDB_def)
  have len: "0 < length (pending (alice_db\<lparr> pending := [?m] \<rparr>))" by simp
  note w1 = valid_send_buffered_and_broadcast [OF c u n g b, of 7 False 0 "alice_db\<lparr> pending := [?m] \<rparr>" True]
  note w2 = valid_send_buffered_and_broadcast [OF c' u' n g b, of 7 False 0 "alice_db\<lparr> pending := [?m] \<rparr>" True]
  have r1: "step alice_online (SendMessage ''a'' ?d 7)
       = Inr (alice_online\<lparr> memoryMessages := [?m] \<rparr>, [Emit ToAll (NewMessage ?m)])"
    using w1 off by (simp add: trim_hi push_message_def m del: step.simps)
  have r2: "run alice_db [SendMessage ''a'' ?d 7, SaveSettled 0 False]
       = (alice_db\<lparr> memoryMessages := [?m] \<rparr>, [Emit ToAll (NewMessage ?m)], None)"
    using w2 db by (simp add: trim_hi push_message_def m' p' del: step.simps run.simps)
  have r3: "step (alice_db\<lparr> pending := [?m] \<rparr>) (SaveSettled 0 True)
       = Inr (alice_db\<lparr> pending := [], collection := [?m] \<rparr>, [Emit ToAll (NewMessage ?m)])"
    using w2 len by (simp add: col del: step.simps)
  have r4: "''a'' \<in> set (recipients alice_db ToAll)" using w2 by blast
  show ?thesis using c u c' u' n g b off db len r1 r2 r3 r4 by blast
qed

section \<open>Malformed payloads\<close>

text \<open>
  C2. The handlers do throw. On a socket that has joined, \<open>send-message\<close> with no
  payload, or with an object that lacks \<open>message\<close>, throws a TypeError at
  \<open>data.message.trim()\<close>; \<open>typing\<close> with a \<open>null\<close> payload throws at
  \<open>data.isTyping\<close>; and \<open>join\<close> with a number throws at \<open>username.trim()\<close>.
  Nothing catches the exception: the run ends there, with no error event emitted.
\<close>

theorem malformed_payload_throws:
  "step alice_online (SendMessage ''a'' JUndefined 7) = Inl TypeError
   \<and> step alice_online (SendMessage ''a'' (JObj []) 7) = Inl TypeError
   \<and> step alice_online (Typing ''a'' JNull) = Inl TypeError
   \<and> step lobby (Join ''a'' (JNum 7) 1 2) = Inl TypeError
   \<and> crashed (run alice_online [SendMessage ''a'' JUndefined 7, GetUsers]) = Some TypeError
   \<and> outputs (run alice_online [SendMessage ''a'' JUndefined 7, GetUsers]) = []"
  by (simp add: alice_online_connected alice_online_username_a lobby_connected
      on_send_message_def on_typing_def on_join_def)

section \<open>The message buffer\<close>

lemma run_send_actions:
  assumes "k \<in> set (connected s)" and "socket_username s k = Some u" and "u \<noteq> []"
    and "\<forall>i \<in> set inputs. trim (fst i) \<noteq> []"
  shows "crashed (run s (send_actions k inputs)) = None
       \<and> memoryMessages (final_state (run s (send_actions k inputs)))
           = fold push_message (sent_as u inputs) (memoryMessages s)"
  using assms
proof (induction inputs arbitrary: s)
  case Nil
  then show ?case by (simp add: send_actions_def sent_as_def)
next
  case (Cons i inputs)
  obtain body t where i: "i = (body, t)" by (cases i)
  let ?m = "\<lparr> username = u, message = trim body, timestamp = t \<rparr>"
  let ?s' = "s\<lparr> memoryMessages := push_message ?m (memoryMessages s),
                pending := (if isDbConnected s then pending s @ [?m] else pending s) \<rparr>"
  let ?outs = "if isDbConnected s then [] else [Emit ToAll (NewMessage ?m)]"
  have body: "trim body \<noteq> []" using Cons.prems(4) i by simp
  have st: "step s (SendMessage k (JObj [(''message'', JStr body)]) t) = Inr (?s', ?outs)"
    by (rule step_valid_send [OF Cons.prems(1) Cons.prems(2) Cons.prems(3) _ body]) simp
  have ih: "crashed (run ?s' (send_actions k inputs)) = None
       \<and> memoryMessages (final_state (run ?s' (send_actions k inputs)))
           = fold push_message (sent_as u inputs) (memoryMessages ?s')"
    using Cons.prems by (intro Cons.IH) simp_all
  have acts: "send_actions k (i # inputs)
      = SendMessage k (JObj [(''message'', JStr body)]) t # send_actions k inputs"
    by (simp add: send_actions_def i)
  have sent: "sent_as u (i # inputs) = ?m # sent_as u inputs"
    by (simp add: sent_as_def i)
  show ?case using ih
    by (simp only: acts sent run_Cons_Inr [OF st] fold_simps) simp
qed

lemma step_buffer_bound:
  assumes "step s a = Inr (s', outs)" and "length (memoryMessages s) \<le> 100"
  shows "length (memoryMessages s') \<le> 100"
  using assms
  by (cases a)
     (auto simp: on_join_def on_send_message_def resume_send_message_def on_typing_def
        on_disconnect_def Let_def length_push_message
        split: if_splits option.splits sum.splits)

lemma run_buffer_bound:
  "length (memoryMessages s) \<le> 100 \<Longrightarrow> length (memoryMessages (final_state (run s acts))) \<le> 100"
proof (induction acts arbitrary: s)
  case Nil
  then show ?case by simp
next
  case (Cons a acts)
  show ?case
  proof (cases "step s a")
    case (Inl e)
    then show ?thesis using Cons.prems by simp
  next
    case (Inr p)
    obtain s' outs where p: "p = (s', outs)" by (cases p)
    have "length (memoryMessages s') \<le> 100"
      using step_buffer_bound Inr p Cons.prems by blast
    then have "length (memoryMessages (final_state (run s' acts))) \<le> 100" by (rule Cons.IH)
    moreover have "final_state (run s (a # acts)) = final_state (run s' acts)"
      using Inr p by (intro run_Cons_Inr) simp
    ultimately show ?thesis by (simp only:)
  qed
qed

text \<open>
  C3. From a state whose buffer holds at most 100 messages (the initial, empty one for
  instance), the buffer holds at most 100 messages after any run of actions. A run of
  validated sends of a socket named \<open>u\<close> does not throw and leaves in the buffer the
  last 100 of the old entries followed by the new messages, in order: the oldest are
  the ones dropped. After 150 such sends into an empty buffer, the last 50 entries
  are messages 101 to 150 in order.
\<close>

theorem memory_buffer_bounded_fifo:
  assumes "k \<in> set (connected s)" and "socket_username s k = Some u" and "u \<noteq> []"
    and "\<forall>i \<in> set inputs. trim (fst i) \<noteq> []" and "length (memoryMessages s) \<le> 100"
  shows "length (memoryMessages (final_state (run s acts))) \<le> 100
       \<and> crashed (run s (send_actions k inputs)) = None
       \<and> memoryMessages (final_state (run s (send_actions k inputs)))
           = slice_neg 100 (memoryMessages s @ sent_as u inputs)
       \<and> (memoryMessages s = [] \<and> length inputs = 150 \<longrightarrow>
            slice_neg 50 (memoryMessages (final_state (run s (send_actions k inputs))))
              = drop 100 (sent_as u inputs))"
proof -
  have bound: "length (memoryMessages (final_state (run s acts))) \<le> 100"
    using assms(5) by (rule run_buffer_bound)
  have sends: "crashed (run s (send_actions k inputs)) = None
       \<and> memoryMessages (final_state (run s (send_actions k inputs)))
           = fold push_message (sent_as u inputs) (memoryMessages s)"
    using assms(1-4) by (rule run_send_actions)
  have fifo: "memoryMessages (final_state (run s (send_actions k inputs)))
           = slice_neg 100 (memoryMessages s @ sent_as u inputs)"
    using sends fold_push_message [OF assms(5)] by simp
  have last50: "slice_neg 50 (memoryMessages (final_state (run s (send_actions k inputs))))
              = drop 100 (sent_as u inputs)"
    if "memoryMessages s = [] \<and> length inputs = 150"
  proof -
    have "length (sent_as u inputs) = 150" using that by (simp add: sent_as_def)
    then show ?thesis using that by (simp add: fifo slice_neg_def)
  qed
  show ?thesis using bound sends fifo last50 by blast
qed

theorem memory_buffer_bounded_fifo_witness:
  "''a'' \<in> set (connected alice_online) \<and> socket_username alice_online ''a'' = Some ''alice''
   \<and> ''alice'' \<noteq> [] \<and> list_all (\<lambda>i. trim (fst i) \<noteq> []) numbered_inputs
   \<and> memoryMessages alice_online = [] \<and> length numbered_inputs = 150
   \<and> length (memoryMessages (final_state (run alice_online (send_actions ''a'' numbered_inputs)))) \<le> 100
   \<and> crashed (run alice_online (send_actions ''a'' numbered_inputs)) = None
   \<and> slice_neg 50 (memoryMessages (final_state (run alice_online (send_actions ''a'' numbered_inputs))))
       = map (\<lambda>n. \<lparr> username = ''alice'', message = ''hi'', timestamp = n \<rparr>) [101..<151]"
proof -
  have c: "''a'' \<in> set (connected alice_online)" by (simp add: alice_online_connected)
  have u: "socket_username alice_online ''a'' = Some ''alice''" by (rule alice_online_username_a)
  have n: "''alice'' \<noteq> []" by simp
  have b: "\<forall>i \<in> set numbered_inputs. trim (fst i) \<noteq> []"
    by (simp add: numbered_inputs_def trim_hi)
  have m: "memoryMessages alice_online = []" by (rule alice_online_memoryMessages)
  have l: "length (memoryMessages alice_online) \<le> 100" by (simp add: m)
  have len: "length numbered_inputs = 150" by (simp add: numbered_inputs_def)
  have d: "drop 100 (sent_as ''alice'' numbered_inputs)
      = map (\<lambda>n. \<lparr> username = ''alice'', message = ''hi'', timestamp = n \<rparr>) [101..<151]"
    by (simp add: sent_as_def numbered_inputs_def drop_map trim_hi)
  have la: "list_all (\<lambda>i. trim (fst i) \<noteq> []) numbered_inputs"
    using b by (simp only: list_all_iff)
  note fifo = memory_buffer_bounded_fifo [OF c u n b l, of "send_actions ''a'' numbered_inputs"]
  have r1: "length (memoryMessages (final_state (run alice_online (send_actions ''a'' numbered_inputs)))) \<le> 100"
    using fifo by blast
  have r2: "crashed (run alice_online (send_actions ''a'' numbered_inputs)) = None"
    using fifo by blast
  have "slice_neg 50 (memoryMessages (final_state (run alice_online (send_actions ''a'' numbered_inputs))))
       = drop 100 (sent_as ''alice'' numbered_inputs)"
    using fifo m len by blast
  then have r3: "slice_neg 50 (memoryMessages (final_state (run alice_online (send_actions ''a'' numbered_inputs))))
       = map (\<lambda>n. \<lparr> username = ''alice'', message = ''hi'', timestamp = n \<rparr>) [101..<151]"
    by (simp only: d)
  show ?thesis using c u n la m len r1 r2 r3 by blast
qed

section \<open>The recent-messages query\<close>












section \<open>The availability flag\<close>

lemma step_isDbConnected:
  "step s a = Inr (s', outs) \<Longrightarrow> isDbConnected s' = isDbConnected s"
  by (cases a)
     (auto simp: on_join_def on_send_message_def resume_send_message_def on_typing_def
        on_disconnect_def Let_def split: if_splits option.splits sum.splits)

lemma run_isDbConnected: "isDbConnected (final_state (run s acts)) = isDbConnected s"
proof (induction acts arbitrary: s)
  case Nil
  show ?case by simp
next
  case (Cons a acts)
  show ?case
  proof (cases "step s a")
    case (Inl e)
    then show ?thesis by simp
  next
    case (Inr p)
    obtain s' outs where p: "p = (s', outs)" by (cases p)
    have "final_state (run s (a # acts)) = final_state (run s' acts)"
      using Inr p by (intro run_Cons_Inr) simp
    moreover have "isDbConnected s' = isDbConnected s"
      using Inr p step_isDbConnected by blast
    ultimately show ?thesis using Cons.IH [of s'] by (simp only:)
  qed
qed

lemma step_response_source:
  assumes "step s a = Inr (s', outs)" and "\<not> isDbConnected s"
    and "MessagesResponse r \<in> set outs"
  shows "source r \<noteq> ''database''"
  using assms
  by (cases a)
     (auto simp: on_join_def on_send_message_def resume_send_message_def on_typing_def
        on_disconnect_def Let_def get_messages_def
        split: if_splits option.splits sum.splits)

lemma run_response_source:
  "\<not> isDbConnected s \<Longrightarrow> MessagesResponse r \<in> set (outputs (run s acts)) \<Longrightarrow>
   source r \<noteq> ''database''"
proof (induction acts arbitrary: s)
  case Nil
  then show ?case by simp
next
  case (Cons a acts)
  show ?case
  proof (cases "step s a")
    case (Inl e)
    then show ?thesis using Cons.prems by simp
  next
    case (Inr p)
    obtain s' outs where p: "p = (s', outs)" by (cases p)
    have st: "step s a = Inr (s', outs)" using Inr p by simp
    have "outputs (run s (a # acts)) = outs @ outputs (run s' acts)"
      using st by (rule run_Cons_Inr)
    then have "MessagesResponse r \<in> set outs \<or> MessagesResponse r \<in> set (outputs (run s' acts))"
      using Cons.prems(2) by (simp only: set_append Un_iff)
    moreover have "\<not> isDbConnected s'" using st Cons.prems(1) step_isDbConnected by blast
    ultimately show ?thesis
      using step_response_source [OF st Cons.prems(1)] Cons.IH [of s'] by blast
  qed
qed

text \<open>
  C5. No action changes \<open>isDbConnected\<close>: after any run, with any saves and queries
  failing in it, the flag is what it was. So when \<open>connectDB\<close> has set it to false
  (the flag is false before that as well), no response to the recent-messages query in
  any later run has the source \<open>database\<close>.
\<close>

theorem source_never_database_after_failed_connect:
  "isDbConnected (final_state (run s acts)) = isDbConnected s
   \<and> (MessagesResponse r \<in> set (outputs (run (connectDB False s) acts)) \<longrightarrow>
        source r \<noteq> ''database'')"
proof -
  have "\<not> isDbConnected (connectDB False s)" by (simp add: connectDB_def)
  then show ?thesis using run_isDbConnected run_response_source by blast
qed

theorem source_never_database_after_failed_connect_witness:
  "MessagesResponse \<lparr> messages = [\<lparr> username = ''alice'', message = ''hi'', timestamp = 7 \<rparr>],
                       source = ''memory'' \<rparr>
     \<in> set (outputs (run (connectDB False alice_online)
               [SendMessage ''a'' (JObj [(''message'', JStr ''hi'')]) 7, GetMessages True]))
   \<and> source \<lparr> messages = [\<lparr> username = ''alice'', message = ''hi'', timestamp = 7 \<rparr>],
               source = ''memory'' \<rparr> \<noteq> ''database''
   \<and> isDbConnected (final_state (run alice_online
        [SendMessage ''a'' (JObj [(''message'', JStr ''hi'')]) 7, GetMessages True]))
       = isDbConnected alice_online"
proof -
  let ?acts = "[SendMessage ''a'' (JObj [(''message'', JStr ''hi'')]) 7, GetMessages True]"
  let ?r = "\<lparr> messages = [\<lparr> username = ''alice'', message = ''hi'', timestamp = 7 \<rparr>],
              source = ''memory'' \<rparr>"
  have m: "MessagesResponse ?r \<in> set (outputs (run (connectDB False alice_online) ?acts))"
    by (simp add: connectDB_def alice_online_connected alice_online_username_a
        alice_online_memoryMessages on_send_message_def get_messages_def push_message_def
        slice_neg_def trim_hi Let_def)
  from source_never_database_after_failed_connect [of alice_online ?acts ?r] m
  show ?thesis by blast
qed

section \<open>Disconnecting\<close>

text \<open>
  C9. When a live socket that has joined as \<open>u\<close> disconnects, the entry under \<open>u\<close>,
  and nothing else, is deleted from the registry: every other entry stays, in its
  place. Exactly one \<open>user-left\<close> is emitted, to the sockets that remain, and exactly
  one \<open>users-update\<close>, to the same sockets, whose roster is the old one without \<open>u\<close>.
  When a socket that never joined disconnects, nothing is emitted and only the list
  of connections changes: the registry is what it was.
\<close>

theorem disconnect_broadcasts:
  assumes "k \<in> set (connected s)"
  shows "(socket_username s k = Some u \<and> u \<noteq> [] \<longrightarrow>
            step s (Disconnect k t)
              = Inr (s\<lparr> connected := removeAll k (connected s),
                        activeUsers := map_delete u (activeUsers s) \<rparr>,
                     [Emit (Broadcast k) (UserLeft u t),
                      Emit ToAll (UsersUpdate (map_keys (map_delete u (activeUsers s))))])
            \<and> u \<notin> set (map_keys (map_delete u (activeUsers s)))
            \<and> map_delete u (activeUsers s) = filter (\<lambda>p. fst p \<noteq> u) (activeUsers s)
            \<and> map_keys (map_delete u (activeUsers s))
                = filter (\<lambda>n. n \<noteq> u) (map_keys (activeUsers s))
            \<and> recipients (s\<lparr> connected := removeAll k (connected s) \<rparr>) (Broadcast k)
                = removeAll k (connected s)
            \<and> recipients (s\<lparr> connected := removeAll k (connected s) \<rparr>) ToAll
                = removeAll k (connected s))
       \<and> (socket_username s k = None \<longrightarrow>
            step s (Disconnect k t) = Inr (s\<lparr> connected := removeAll k (connected s) \<rparr>, []))"
proof -
  have del: "map_delete u (activeUsers s) = filter (\<lambda>p. fst p \<noteq> u) (activeUsers s)"
    by (rule map_delete_filter)
  have keys: "map_keys (map_delete u (activeUsers s))
      = filter (\<lambda>n. n \<noteq> u) (map_keys (activeUsers s))"
    by (rule map_keys_map_delete)
  have rest: "(socket_username s k = Some u \<and> u \<noteq> [] \<longrightarrow>
            step s (Disconnect k t)
              = Inr (s\<lparr> connected := removeAll k (connected s),
                        activeUsers := map_delete u (activeUsers s) \<rparr>,
                     [Emit (Broadcast k) (UserLeft u t),
                      Emit ToAll (UsersUpdate (map_keys (map_delete u (activeUsers s))))])
            \<and> u \<notin> set (map_keys (map_delete u (activeUsers s)))
            \<and> recipients (s\<lparr> connected := removeAll k (connected s) \<rparr>) (Broadcast k)
                = removeAll k (connected s)
            \<and> recipients (s\<lparr> connected := removeAll k (connected s) \<rparr>) ToAll
                = removeAll k (connected s))
       \<and> (socket_username s k = None \<longrightarrow>
            step s (Disconnect k t) = Inr (s\<lparr> connected := removeAll k (connected s) \<rparr>, []))"
    using assms by (simp add: on_disconnect_def Let_def map_delete_keys filter_id_conv)
  show ?thesis using del keys rest by blast
qed

theorem disconnect_broadcasts_witness:
  "''a'' \<in> set (connected both_online) \<and> socket_username both_online ''a'' = Some ''alice''
   \<and> ''alice'' \<noteq> []
   \<and> activeUsers both_online
       = [(''alice'', \<lparr> id_of = ''a'', joinedAt = 1 \<rparr>), (''bob'', \<lparr> id_of = ''b'', joinedAt = 3 \<rparr>)]
   \<and> step both_online (Disconnect ''a'' 9)
       = Inr (both_online\<lparr> connected := [''b''],
                           activeUsers := [(''bob'', \<lparr> id_of = ''b'', joinedAt = 3 \<rparr>)] \<rparr>,
              [Emit (Broadcast ''a'') (UserLeft ''alice'' 9), Emit ToAll (UsersUpdate [''bob''])])
   \<and> recipients (both_online\<lparr> connected := [''b''] \<rparr>) (Broadcast ''a'') = [''b'']
   \<and> recipients (both_online\<lparr> connected := [''b''] \<rparr>) ToAll = [''b'']
   \<and> ''b'' \<in> set (connected alice_online) \<and> socket_username alice_online ''b'' = None
   \<and> step alice_online (Disconnect ''b'' 9) = Inr (alice_online\<lparr> connected := [''a''] \<rparr>, [])"
proof -
  have ca: "''a'' \<in> set (connected both_online)"
    by (simp add: both_online_eq alice_online_connected)
  have cn: "connected both_online = [''a'', ''b'']"
    by (simp add: both_online_eq alice_online_connected)
  have cb: "''b'' \<in> set (connected alice_online)" by (simp add: alice_online_connected)
  have ua: "socket_username both_online ''a'' = Some ''alice''"
    by (simp add: both_online_eq alice_online_username_a)
  have ub: "socket_username alice_online ''b'' = None" by (rule alice_online_username_b)
  have n: "''alice'' \<noteq> []" by simp
  have au: "activeUsers both_online
       = [(''alice'', \<lparr> id_of = ''a'', joinedAt = 1 \<rparr>), (''bob'', \<lparr> id_of = ''b'', joinedAt = 3 \<rparr>)]"
    by (simp add: both_online_eq)
  note named = disconnect_broadcasts [OF ca, of "''alice''" 9]
  note unnamed = disconnect_broadcasts [OF cb, of "''bob''" 9]
  have d: "map_delete ''alice'' (activeUsers both_online) = [(''bob'', \<lparr> id_of = ''b'', joinedAt = 3 \<rparr>)]"
    using named ua n by (simp add: au)
  have r1: "step both_online (Disconnect ''a'' 9)
       = Inr (both_online\<lparr> connected := [''b''],
                           activeUsers := [(''bob'', \<lparr> id_of = ''b'', joinedAt = 3 \<rparr>)] \<rparr>,
              [Emit (Broadcast ''a'') (UserLeft ''alice'' 9), Emit ToAll (UsersUpdate [''bob''])])"
    using named ua n by (simp add: d cn map_keys_def)
  have r2: "recipients (both_online\<lparr> connected := [''b''] \<rparr>) (Broadcast ''a'') = [''b'']"
    using named ua n by (simp add: cn)
  have r3: "recipients (both_online\<lparr> connected := [''b''] \<rparr>) ToAll = [''b'']"
    using named ua n by (simp add: cn)
  have r4: "step alice_online (Disconnect ''b'' 9) = Inr (alice_online\<lparr> connected := [''a''] \<rparr>, [])"
    using unnamed ub by (simp add: alice_online_connected)
  show ?thesis using ca ua n au r1 r2 r3 cb ub r4 by blast
qed

text \<open>
  C10. Two live sockets \<open>a\<close> and \<open>b\<close> join under names that trim to the same string.
  After the second join the one registry entry under that name belongs to \<open>b\<close>. When
  \<open>a\<close> then disconnects, the entry is deleted by name: \<open>b\<close> is still connected and
  still carries the name, yet the name is gone from the registry and from the roster
  sent to all, and a \<open>user-left\<close> for that name goes out, to \<open>b\<close> among others.
\<close>

theorem duplicate_name_disconnect_removes_live_user:
  assumes "a \<in> set (connected s)" and "b \<in> set (connected s)" and "a \<noteq> b"
    and "trim n \<noteq> []" and "trim n' = trim n"
  shows "map_of (activeUsers (final_state (run s (two_joins a n t1 t2 b n' t3 t4)))) (trim n)
           = Some \<lparr> id_of = b, joinedAt = t3 \<rparr>
         \<and> crashed (run s (two_joins a n t1 t2 b n' t3 t4 @ [Disconnect a t5])) = None
         \<and> b \<in> set (connected (final_state
               (run s (two_joins a n t1 t2 b n' t3 t4 @ [Disconnect a t5]))))
         \<and> socket_username (final_state
               (run s (two_joins a n t1 t2 b n' t3 t4 @ [Disconnect a t5]))) b = Some (trim n)
         \<and> trim n \<notin> set (map_keys (activeUsers (final_state
               (run s (two_joins a n t1 t2 b n' t3 t4 @ [Disconnect a t5])))))
         \<and> outputs (run s (two_joins a n t1 t2 b n' t3 t4 @ [Disconnect a t5]))
             = outputs (run s (two_joins a n t1 t2 b n' t3 t4))
               @ [Emit (Broadcast a) (UserLeft (trim n) t5),
                  Emit ToAll (UsersUpdate (map_keys (activeUsers (final_state
                    (run s (two_joins a n t1 t2 b n' t3 t4 @ [Disconnect a t5]))))))]
         \<and> b \<in> set (recipients (final_state
               (run s (two_joins a n t1 t2 b n' t3 t4 @ [Disconnect a t5]))) (Broadcast a))"
proof -
  have n: "n \<noteq> []" and n': "n' \<noteq> []" using assms(4,5) by auto
  show ?thesis
    using assms n n'
    by (simp add: two_joins_def on_join_def on_disconnect_def Let_def
        map_of_map_set map_delete_keys)
qed

theorem duplicate_name_disconnect_removes_live_user_witness:
  "''a'' \<in> set (connected lobby) \<and> ''b'' \<in> set (connected lobby) \<and> ''a'' \<noteq> ''b''
   \<and> trim ''bob'' \<noteq> [] \<and> trim '' bob '' = trim ''bob''
   \<and> map_of (activeUsers (final_state (run lobby (two_joins ''a'' ''bob'' 11 12 ''b'' '' bob '' 13 14))))
        ''bob'' = Some \<lparr> id_of = ''b'', joinedAt = 13 \<rparr>
   \<and> connected (final_state (run lobby
        (two_joins ''a'' ''bob'' 11 12 ''b'' '' bob '' 13 14 @ [Disconnect ''a'' 15]))) = [''b'']
   \<and> socket_username (final_state (run lobby
        (two_joins ''a'' ''bob'' 11 12 ''b'' '' bob '' 13 14 @ [Disconnect ''a'' 15]))) ''b'' = Some ''bob''
   \<and> activeUsers (final_state (run lobby
        (two_joins ''a'' ''bob'' 11 12 ''b'' '' bob '' 13 14 @ [Disconnect ''a'' 15]))) = []
   \<and> outputs (run lobby (two_joins ''a'' ''bob'' 11 12 ''b'' '' bob '' 13 14 @ [Disconnect ''a'' 15]))
       = [Emit (Broadcast ''a'') (UserJoined ''bob'' 12), Emit ToAll (UsersUpdate [''bob'']),
          Emit (Broadcast ''b'') (UserJoined ''bob'' 14), Emit ToAll (UsersUpdate [''bob'']),
          Emit (Broadcast ''a'') (UserLeft ''bob'' 15), Emit ToAll (UsersUpdate [])]"
proof -
  have ca: "''a'' \<in> set (connected lobby)" by (simp add: lobby_connected)
  have cb: "''b'' \<in> set (connected lobby)" by (simp add: lobby_connected)
  have ne: "''a'' \<noteq> ''b''" by simp
  have t: "trim ''bob'' = ''bob''" by (simp add: trim_def is_white_space_def)
  have t': "trim '' bob '' = ''bob''" by (simp add: trim_def is_white_space_def)
  have tn: "trim ''bob'' \<noteq> []" by (simp add: t)
  have eq: "trim '' bob '' = trim ''bob''" by (simp add: t t')
  note dup = duplicate_name_disconnect_removes_live_user [OF ca cb ne tn eq, of 11 12 13 14 15]
  have r1: "map_of (activeUsers (final_state (run lobby (two_joins ''a'' ''bob'' 11 12 ''b'' '' bob '' 13 14))))
        ''bob'' = Some \<lparr> id_of = ''b'', joinedAt = 13 \<rparr>"
    using dup by (simp add: t)
  have r2: "socket_username (final_state (run lobby
        (two_joins ''a'' ''bob'' 11 12 ''b'' '' bob '' 13 14 @ [Disconnect ''a'' 15]))) ''b'' = Some ''bob''"
    using dup by (simp add: t)
  have ev: "run lobby (two_joins ''a'' ''bob'' 11 12 ''b'' '' bob '' 13 14 @ [Disconnect ''a'' 15])
      = (lobby\<lparr> socket_username := (socket_username lobby)(''a'' := Some ''bob'', ''b'' := Some ''bob''),
                activeUsers := [], connected := [''b''] \<rparr>,
         [Emit (Broadcast ''a'') (UserJoined ''bob'' 12), Emit ToAll (UsersUpdate [''bob'']),
          Emit (Broadcast ''b'') (UserJoined ''bob'' 14), Emit ToAll (UsersUpdate [''bob'']),
          Emit (Broadcast ''a'') (UserLeft ''bob'' 15), Emit ToAll (UsersUpdate [])],
         None)"
    by (simp add: two_joins_def on_join_def on_disconnect_def Let_def t t' lobby_connected
        lobby_username lobby_activeUsers map_keys_def)
  show ?thesis using ca cb ne tn eq r1 r2 unfolding ev by simp
qed

end
